theory Spec2Isabelle
  imports Complex_Main
begin

section \<open>The traffic-surge detector of \<open>utils.py\<close>\<close>

text \<open>
  A shallow embedding of the three classes of \<open>src/utils.py\<close>: \<open>Pane\<close> (one time
  period with its per-address counters), \<open>Window\<close> (the bounded history of panes) and
  \<open>AttackDetector\<close> (the state machine fed with log records).

  Conventions of the embedding.
  \<^item> Python objects are records, a method is a function from the object (and its
    arguments) to the updated object. A pane handed to the window is never touched
    again through \<open>current_pane\<close> (\<open>process_data\<close> installs a fresh pane right after the
    hand-over), so copying the pane into the window is the same as sharing it.
  \<^item> The dictionary \<open>ip_list\<close> is an association list in insertion order, as Python
    iterates it; the first entry of a key is the entry of the key.
  \<^item> Python integers are \<open>int\<close>. Python floats are read as \<open>real\<close>: \<open>/\<close> is real
    division, \<open>math.sqrt\<close> is \<open>sqrt\<close>; rounding is not modelled.
  \<^item> An exception is a value of \<open>error\<close>. A method of the detector returns the
    exception (if any) together with the detector as the exception leaves it, since an
    assignment made before a \<open>raise\<close> stays made.
  \<^item> The two sinks are fields of the detector: \<open>stdout\<close> holds the arguments of each
    \<open>print\<close>, \<open>log_file\<close> the lines appended to the file at \<open>log_path\<close>. Opening and
    writing that file is taken to succeed.
\<close>

datatype error = ZeroDivisionError | IndexError | AttributeError | TypeError

subsection \<open>Pane\<close>

record ('ip, 't) Pane =
  timestamp :: 't
  ip_list :: "('ip \<times> int) list"
  n_requests :: int

definition Pane_init :: "'t \<Rightarrow> ('ip, 't) Pane" where
  "Pane_init ts = \<lparr>timestamp = ts, ip_list = [], n_requests = 0\<rparr>"

text \<open>\<open>d[k] = v\<close> on an insertion-ordered dictionary: overwrite in place, or append.\<close>

fun dict_set :: "'k \<Rightarrow> 'v \<Rightarrow> ('k \<times> 'v) list \<Rightarrow> ('k \<times> 'v) list" where
  "dict_set k v [] = [(k, v)]"
| "dict_set k v ((k', v') # rest) =
     (if k' = k then (k, v) # rest else (k', v') # dict_set k v rest)"

definition update :: "('ip, 't) Pane \<Rightarrow> 'ip \<Rightarrow> ('ip, 't) Pane" where
  "update p ip =
     (let l = (case map_of (ip_list p) ip of
                 None \<Rightarrow> dict_set ip 1 (ip_list p)
               | Some c \<Rightarrow> dict_set ip (c + 1) (ip_list p))
      in p\<lparr>ip_list := l, n_requests := n_requests p + 1\<rparr>)"

definition ip_stats :: "('ip, 't) Pane \<Rightarrow> error + (real \<times> real)" where
  "ip_stats p =
     (let numer = foldl (\<lambda>a (k, v). a + v) (0::int) (ip_list p);
          denom = foldl (\<lambda>a (k, v). a + 1) (0::int) (ip_list p)
      in if denom = 0 then Inl ZeroDivisionError
         else
           let mean = real_of_int numer / real_of_int denom;
               sd_temp = foldl (\<lambda>a (k, v). a + (mean - real_of_int v)\<^sup>2) 0 (ip_list p);
               sd = sqrt sd_temp
           in Inr (mean, sd))"

subsection \<open>Window\<close>

record ('ip, 't) Window =
  window_length :: int
  panes :: "('ip, 't) Pane list"
  ave_requests :: real
  sd_requests :: real

definition Window_init :: "int \<Rightarrow> ('ip, 't) Window" where
  "Window_init wl = \<lparr>window_length = wl, panes = [], ave_requests = 0, sd_requests = 0\<rparr>"

definition window_len :: "('ip, 't) Window \<Rightarrow> int" where
  "window_len w = int (length (panes w))"

fun contains_pane :: "('ip, 't) Pane list \<Rightarrow> 't \<Rightarrow> bool" where
  "contains_pane [] ts = False"
| "contains_pane (p # ps) ts = (if timestamp p = ts then True else contains_pane ps ts)"

definition window_contains :: "('ip, 't) Window \<Rightarrow> 't \<Rightarrow> bool" where
  "window_contains w ts = contains_pane (panes w) ts"

text \<open>\<open>list.pop(0)\<close>: the list without its first element, \<open>IndexError\<close> on the empty list.\<close>

definition pop0 :: "'a list \<Rightarrow> error + 'a list" where
  "pop0 xs = (case xs of [] \<Rightarrow> Inl IndexError | x # rest \<Rightarrow> Inr rest)"

text \<open>
  \<open>shift_window\<close>: the \<open>IndexError\<close> of \<open>pop(0)\<close> is caught and dropped, and the
  \<open>finally\<close> clause appends the new pane whether or not the \<open>pop\<close> succeeded.
\<close>

definition shift_window :: "('ip, 't) Window \<Rightarrow> ('ip, 't) Pane \<Rightarrow> ('ip, 't) Window" where
  "shift_window w new_pane =
     (if window_len w < window_length w then w\<lparr>panes := panes w @ [new_pane]\<rparr>
      else
        let ps = (case pop0 (panes w) of Inl e \<Rightarrow> panes w | Inr rest \<Rightarrow> rest)
        in w\<lparr>panes := ps @ [new_pane]\<rparr>)"

definition get_request_stats ::
  "('ip, 't) Window \<Rightarrow> error + ((real \<times> real) \<times> ('ip, 't) Window)" where
  "get_request_stats w =
     (let numer = foldl (\<lambda>a p. a + n_requests p) (0::int) (panes w)
      in if window_len w = 0 then Inl ZeroDivisionError
         else
           let w1 = w\<lparr>ave_requests := real_of_int numer / real_of_int (window_len w)\<rparr>;
               sd_temp = foldl (\<lambda>a p. a + (ave_requests w1 - real_of_int (n_requests p))\<^sup>2)
                           0 (panes w1);
               w2 = w1\<lparr>sd_requests := sqrt sd_temp\<rparr>
           in Inr ((ave_requests w2, sd_requests w2), w2))"

subsection \<open>AttackDetector\<close>

text \<open>
  \<open>__init__\<close> assigns \<open>normal_request_stats\<close> and \<open>normal_ip_stats\<close> (both \<open>None\<close>);
  the attribute \<open>normal_stats\<close> that \<open>scan_for_attack\<close> reads and writes does not exist
  until the first escalation. \<open>None\<close> in the field \<open>normal_stats\<close> stands for the missing
  attribute (reading it raises \<open>AttributeError\<close>), \<open>None\<close> in \<open>normal_ip_stats\<close> for
  Python's \<open>None\<close> (subscripting it raises \<open>TypeError\<close>).
\<close>

record ('ip, 't) AttackDetector =
  window :: "('ip, 't) Window"
  current_pane :: "('ip, 't) Pane option"
  current_timestamp :: "'t option"
  log_path :: string
  status :: bool
  normal_request_stats :: "(real \<times> real) option"
  normal_ip_stats :: "(real \<times> real) option"
  normal_stats :: "(real \<times> real) option"
  stdout :: "('t option \<times> int \<times> bool) list"
  log_file :: "'ip list"

definition AttackDetector_init :: "int \<Rightarrow> string \<Rightarrow> ('ip, 't) AttackDetector" where
  "AttackDetector_init wl path =
     \<lparr>window = Window_init wl, current_pane = None, current_timestamp = None,
      log_path = path, status = False, normal_request_stats = None,
      normal_ip_stats = None, normal_stats = None, stdout = [], log_file = []\<rparr>"

text \<open>
  The loop of \<open>check_ip_stats\<close> over the items of the current pane: \<open>True\<close> at the
  first count above mean plus two deviations, \<open>False\<close> when the items run out. The
  baseline is read at each item, so a missing baseline raises only when there is an item.
\<close>

fun any_ip_above :: "(real \<times> real) option \<Rightarrow> ('ip \<times> int) list \<Rightarrow> error + bool" where
  "any_ip_above st [] = Inr False"
| "any_ip_above st ((ip, v) # rest) =
     (case st of
        None \<Rightarrow> Inl TypeError
      | Some (m, s) \<Rightarrow> if real_of_int v > m + 2 * s then Inr True else any_ip_above st rest)"

definition check_ip_stats ::
  "('ip, 't) AttackDetector \<Rightarrow> (error + bool) \<times> ('ip, 't) AttackDetector" where
  "check_ip_stats d =
     (if status d then
        (case current_pane d of
           None \<Rightarrow> (Inl AttributeError, d)
         | Some cp \<Rightarrow> (any_ip_above (normal_ip_stats d) (ip_list cp), d))
      else
        (case panes (window d) of
           [] \<Rightarrow> (Inl IndexError, d)
         | p # ps \<Rightarrow>
            (case ip_stats (last (panes (window d))) of
               Inl e \<Rightarrow> (Inl e, d)
             | Inr st \<Rightarrow>
                let d1 = d\<lparr>normal_ip_stats := Some st\<rparr>
                in (case current_pane d1 of
                      None \<Rightarrow> (Inl AttributeError, d1)
                    | Some cp \<Rightarrow> (any_ip_above (normal_ip_stats d1) (ip_list cp), d1)))))"

text \<open>The loop of \<open>write_ips_to_logs\<close>, threading the contents of the log file.\<close>

fun write_loop ::
  "(real \<times> real) option \<Rightarrow> ('ip \<times> int) list \<Rightarrow> 'ip list \<Rightarrow> error option \<times> 'ip list" where
  "write_loop st [] lg = (None, lg)"
| "write_loop st ((ip, v) # rest) lg =
     (case st of
        None \<Rightarrow> (Some TypeError, lg)
      | Some (m, s) \<Rightarrow>
          if real_of_int v > m + 2 * s then write_loop st rest (lg @ [ip])
          else write_loop st rest lg)"

definition write_ips_to_logs ::
  "('ip, 't) AttackDetector \<Rightarrow> error option \<times> ('ip, 't) AttackDetector" where
  "write_ips_to_logs d =
     (case current_pane d of
        None \<Rightarrow> (Some AttributeError, d)
      | Some cp \<Rightarrow>
          (case write_loop (normal_ip_stats d) (ip_list cp) (log_file d) of
             (e, lg) \<Rightarrow> (e, d\<lparr>log_file := lg\<rparr>)))"

definition scan_for_attack ::
  "('ip, 't) AttackDetector \<Rightarrow> error option \<times> ('ip, 't) AttackDetector" where
  "scan_for_attack d =
     (if status d then
        (case current_pane d of
           None \<Rightarrow> (Some AttributeError, d)
         | Some cp \<Rightarrow>
            (case normal_stats d of
               None \<Rightarrow> (Some AttributeError, d)
             | Some (m, s) \<Rightarrow>
                if real_of_int (n_requests cp) > m + 2 * s then
                  (case check_ip_stats d of
                     (Inl e, d1) \<Rightarrow> (Some e, d1)
                   | (Inr True, d1) \<Rightarrow> write_ips_to_logs d1
                   | (Inr False, d1) \<Rightarrow> (None, d1\<lparr>status := False\<rparr>))
                else (None, d\<lparr>status := False\<rparr>)))
      else
        (case get_request_stats (window d) of
           Inl e \<Rightarrow> (Some e, d)
         | Inr ((ave, sd), w') \<Rightarrow>
            let d1 = d\<lparr>window := w'\<rparr>
            in (case current_pane d1 of
                  None \<Rightarrow> (Some AttributeError, d1)
                | Some cp \<Rightarrow>
                   if real_of_int (n_requests cp) > ave + 2 * sd then
                     (case check_ip_stats d1 of
                        (Inl e, d2) \<Rightarrow> (Some e, d2)
                      | (Inr True, d2) \<Rightarrow>
                          write_ips_to_logs (d2\<lparr>status := True, normal_stats := Some (ave, sd)\<rparr>)
                      | (Inr False, d2) \<Rightarrow> (None, d2))
                   else (None, d1))))"

definition process_data ::
  "('ip, 't) AttackDetector \<Rightarrow> 'ip \<Rightarrow> 't \<Rightarrow> error option \<times> ('ip, 't) AttackDetector" where
  "process_data d ip ts =
     (let d1 = (if current_pane d = None
                then d\<lparr>current_timestamp := Some ts, current_pane := Some (Pane_init ts)\<rparr>
                else d)
      in if Some ts \<noteq> current_timestamp d1 then
           (if \<not> window_contains (window d1) ts then
              (case (if window_len (window d1) > 1 then scan_for_attack d1 else (None, d1)) of
                 (Some e, d2) \<Rightarrow> (Some e, d2)
               | (None, d2) \<Rightarrow>
                  (case current_pane d2 of
                     None \<Rightarrow> (Some AttributeError, d2)
                   | Some cp \<Rightarrow>
                      let d3 = d2\<lparr>stdout := stdout d2 @
                                 [(current_timestamp d2, n_requests cp, status d2)]\<rparr>;
                          d4 = d3\<lparr>window := shift_window (window d3) cp\<rparr>
                      in (None, d4\<lparr>current_timestamp := Some ts,
                                    current_pane := Some (Pane_init ts)\<rparr>)))
            else (None, d1))
         else
           (case current_pane d1 of
              None \<Rightarrow> (Some AttributeError, d1)
            | Some cp \<Rightarrow> (None, d1\<lparr>current_pane := Some (update cp ip)\<rparr>)))"

text \<open>
  Feeding a list of records: the calls of \<open>process_data\<close> in order, stopping at the
  first exception, which no caller in the source catches.
\<close>

fun process_all ::
  "('ip, 't) AttackDetector \<Rightarrow> ('ip \<times> 't) list \<Rightarrow> error option \<times> ('ip, 't) AttackDetector" where
  "process_all d [] = (None, d)"
| "process_all d ((ip, ts) # recs) =
     (case process_data d ip ts of
        (Some e, d') \<Rightarrow> (Some e, d')
      | (None, d') \<Rightarrow> process_all d' recs)"

text \<open>
  The detector before the first call and after each call of such a feed, the state an
  exception leaves behind included.
\<close>

fun run_states ::
  "('ip, 't) AttackDetector \<Rightarrow> ('ip \<times> 't) list \<Rightarrow> ('ip, 't) AttackDetector list" where
  "run_states d [] = [d]"
| "run_states d ((ip, ts) # recs) =
     d # (case process_data d ip ts of
            (Some e, d') \<Rightarrow> [d']
          | (None, d') \<Rightarrow> run_states d' recs)"

text \<open>
  The states a detector can be in: the constructed one, and any state a call of
  \<open>process_data\<close> leaves behind, whether it returned or raised.
\<close>

inductive reachable :: "('ip, 't) AttackDetector \<Rightarrow> bool" where
  init: "reachable (AttackDetector_init wl path)"
| step: "reachable d \<Longrightarrow> process_data d ip ts = (e, d') \<Longrightarrow> reachable d'"

subsection \<open>The statistics as the specification words them\<close>

text \<open>
  The mean of a list of counts, and the population standard deviation: the square root
  of the sum of the squared deviations from the mean divided by the number of counts.
  These two follow the specification, not the source; they are what \<open>ip_stats\<close> and
  \<open>get_request_stats\<close> are compared with.
\<close>

definition mean_of :: "int list \<Rightarrow> real" where
  "mean_of xs = real_of_int (sum_list xs) / real (length xs)"

definition population_stdev :: "int list \<Rightarrow> real" where
  "population_stdev xs =
     sqrt ((\<Sum>x\<leftarrow>xs. (mean_of xs - real_of_int x)\<^sup>2) / real (length xs))"

subsection \<open>Two concrete inputs\<close>

text \<open>
  A pane that received eight requests from four addresses (counts 1, 1, 3, 3), and a
  window of capacity four that received four panes with 1, 1, 3 and 3 requests.
\<close>

definition uneven_pane :: "(string, nat) Pane" where
  "uneven_pane = foldl update (Pane_init 0)
     [''a'', ''b'', ''c'', ''c'', ''c'', ''d'', ''d'', ''d'']"

definition uneven_window :: "(string, nat) Window" where
  "uneven_window = foldl shift_window (Window_init 4)
     [foldl update (Pane_init 1) [''a''],
      foldl update (Pane_init 2) [''b''],
      foldl update (Pane_init 3) [''a'', ''a'', ''a''],
      foldl update (Pane_init 4) [''a'', ''b'', ''a'']]"

text \<open>
  Detectors of capacity five. \<open>early_detector\<close> has one pane in its window.
  \<open>calm_detector\<close> has seen two quiet time units and three requests of one address in
  the third; the next boundary escalates it to \<open>attack_detector\<close>. \<open>attack_records\<close>
  continue that feed with a time unit that is still above the baseline and one that is not.
\<close>

definition early_detector :: "(string, nat) AttackDetector" where
  "early_detector = snd (process_all (AttackDetector_init 5 ''alerts.log'')
     [(''a'', 1), (''b'', 1), (''c'', 2), (''d'', 2)])"

definition calm_records :: "(string \<times> nat) list" where
  "calm_records = [(''a'', 1), (''x'', 2), (''a'', 2), (''x'', 3),
                   (''b'', 3), (''b'', 3), (''b'', 3)]"

definition calm_detector :: "(string, nat) AttackDetector" where
  "calm_detector = snd (process_all (AttackDetector_init 5 ''alerts.log'') calm_records)"

definition attack_detector :: "(string, nat) AttackDetector" where
  "attack_detector = snd (process_data calm_detector ''x'' 4)"

definition attack_records :: "(string \<times> nat) list" where
  "attack_records = [(''c'', 4), (''c'', 4), (''x'', 5), (''a'', 5), (''x'', 6)]"

section \<open>Properties of Pane\<close>

lemma sum_dict_set:
  "sum_list (map snd (dict_set k v l)) =
     sum_list (map snd l) - (case map_of l k of None \<Rightarrow> 0 | Some c \<Rightarrow> c) + (v::int)"
  by (induction l) auto

lemma update_sum:
  "sum_list (map snd (ip_list (update p ip))) = sum_list (map snd (ip_list p)) + 1"
  by (simp add: update_def Let_def sum_dict_set split: option.split)

lemma update_n_requests: "n_requests (update p ip) = n_requests p + 1"
  by (simp add: update_def Let_def)

lemma update_invariant:
  "n_requests p = sum_list (map snd (ip_list p)) \<Longrightarrow>
   n_requests (update p ip) = sum_list (map snd (ip_list (update p ip)))"
  by (simp add: update_sum update_n_requests)

lemma foldl_update_invariant:
  "n_requests p = sum_list (map snd (ip_list p)) \<Longrightarrow>
   n_requests (foldl update p ips) = sum_list (map snd (ip_list (foldl update p ips)))"
  by (induction ips arbitrary: p) (simp_all add: update_invariant)

text \<open>
  C6: after every sequence of \<open>update\<close> calls on a pane, with any addresses,
  \<open>n_requests\<close> is the sum of the values of \<open>ip_list\<close>. The sequence \<open>ips\<close> is
  arbitrary, so the equation holds after each call of a longer sequence as well.
\<close>

theorem n_requests_is_sum_of_counts:
  "n_requests (foldl update (Pane_init ts) ips) =
     sum_list (map snd (ip_list (foldl update (Pane_init ts) ips)))"
  by (rule foldl_update_invariant) (simp add: Pane_init_def)

subsection \<open>What \<open>ip_stats\<close> computes\<close>

lemma foldl_numer: "foldl (\<lambda>a (k, v). a + v) s l = s + sum_list (map snd l)" for s :: int
  by (induction l arbitrary: s) auto

lemma foldl_denom: "foldl (\<lambda>a (k, v). a + 1) s l = s + int (length l)" for s :: int
  by (induction l arbitrary: s) auto

lemma foldl_sd_temp:
  "foldl (\<lambda>a (k, v). a + (m - real_of_int v)\<^sup>2) s l =
     s + (\<Sum>x\<leftarrow>map snd l. (m - real_of_int x)\<^sup>2)"
  by (induction l arbitrary: s) auto

lemma sqrt_scaled: "0 < n \<Longrightarrow> sqrt n * sqrt (S / n) = sqrt S"
  by (simp add: real_sqrt_mult [symmetric])

text \<open>
  On every non-empty pane the mean is the specification's mean, and the second
  component is the square root of the sum of the squared deviations: the sum is never
  divided by the number of addresses, so the result is the population standard
  deviation scaled by the square root of that number.
\<close>

lemma ip_stats_formula:
  assumes "ip_list p \<noteq> []"
  shows "ip_stats p =
    Inr (mean_of (map snd (ip_list p)),
         sqrt (real (length (ip_list p))) * population_stdev (map snd (ip_list p)))"
proof -
  have pos: "0 < real (length (ip_list p))" using assms by simp
  show ?thesis
    using assms
    by (simp add: ip_stats_def Let_def foldl_numer foldl_denom foldl_sd_temp
        population_stdev_def sqrt_scaled [OF pos] o_def)
      (simp add: mean_of_def)
qed

lemma uneven_pane_value:
  "uneven_pane =
     \<lparr>timestamp = 0, ip_list = [(''a'', 1), (''b'', 1), (''c'', 3), (''d'', 3)],
      n_requests = 8\<rparr>"
  by (simp add: uneven_pane_def update_def Pane_init_def)

text \<open>
  C2 at a concrete pane: with the counts 1, 1, 3, 3 the mean is 2 and the population
  standard deviation is 1, and \<open>ip_stats\<close> returns the deviation 2. Every value on the
  way (8 / 4, the four squares, their sum 4 and its root) is exact in binary floating
  point, so Python returns \<open>(2.0, 2.0)\<close> as well.
\<close>

theorem ip_stats_omits_division:
  "ip_stats uneven_pane = Inr (2, 2) \<and>
   mean_of (map snd (ip_list uneven_pane)) = 2 \<and>
   population_stdev (map snd (ip_list uneven_pane)) = 1"
  unfolding uneven_pane_value
  by (simp add: ip_stats_def Let_def mean_of_def population_stdev_def power2_eq_square)

section \<open>Properties of Window\<close>

lemma window_length_shift [simp]: "window_length (shift_window w b) = window_length w"
  by (simp add: shift_window_def Let_def)

lemma window_length_foldl [simp]: "window_length (foldl shift_window w bs) = window_length w"
  by (induction bs arbitrary: w) simp_all

lemma shift_window_caches:
  "ave_requests (shift_window w b) = ave_requests w \<and> sd_requests (shift_window w b) = sd_requests w"
  by (simp add: shift_window_def Let_def)

lemma panes_shift:
  "panes (shift_window w b) =
     (if int (length (panes w)) < window_length w then panes w @ [b] else tl (panes w) @ [b])"
  by (simp add: shift_window_def window_len_def pop0_def Let_def split: list.split)

text \<open>
  What a window holds after the panes \<open>bs\<close> were shifted in, for any capacity: the last
  \<open>max 1 C\<close> of them, in arrival order. A capacity below one behaves as capacity one.
\<close>

lemma panes_roll:
  "panes (foldl shift_window (Window_init C) bs) = drop (length bs - nat (max 1 C)) bs"
proof (induction bs rule: rev_induct)
  case Nil
  show ?case by (simp add: Window_init_def)
next
  case (snoc b bs)
  let ?w = "foldl shift_window (Window_init C) bs"
  let ?m = "nat (max 1 C)"
  have wl: "window_length ?w = C" by (simp add: Window_init_def)
  have len: "length (panes ?w) = min (length bs) ?m" using snoc by simp
  have step: "foldl shift_window (Window_init C) (bs @ [b]) = shift_window ?w b" by simp
  show ?case
  proof (cases "int (length (panes ?w)) < C")
    case True
    then have "length bs < ?m" using len by simp
    then show ?thesis using True snoc wl unfolding step panes_shift by simp
  next
    case False
    show ?thesis
    proof (cases "bs = []")
      case True
      then show ?thesis using False snoc wl unfolding step panes_shift by simp
    next
      case nonempty: False
      have "min (length bs) ?m = ?m"
      proof (cases "1 \<le> C")
        case True
        then show ?thesis using False len by simp
      next
        case small: False
        then have "?m = 1" by simp
        moreover have "1 \<le> length bs" using nonempty by (cases bs) simp_all
        ultimately show ?thesis by (simp only: min_absorb2)
      qed
      then have m: "?m \<le> length bs" by simp
      have "tl (drop (length bs - ?m) bs) = drop (Suc (length bs - ?m)) bs"
        by (simp add: drop_Suc tl_drop)
      then show ?thesis using False snoc wl m unfolding step panes_shift by (simp add: Suc_diff_le)
    qed
  qed
qed

text \<open>
  C1, as the specification states it, fails for capacity 0: the first \<open>shift_window\<close>
  on \<open>Window(0)\<close> finds nothing to pop, swallows the \<open>IndexError\<close> and appends, so the
  window holds one pane, more than its capacity.
\<close>

theorem shift_window_exceeds_capacity_zero:
  "\<not> int (length (panes (foldl shift_window (Window_init 0)
       [Pane_init (1::nat) :: (string, nat) Pane]))) \<le> 0"
  by (simp add: panes_shift Window_init_def)

text \<open>
  C1, amended to capacities of at least one: for every window constructed with
  capacity \<open>C \<ge> 1\<close> and every sequence \<open>bs\<close> of \<open>shift_window\<close> calls the length never
  exceeds \<open>C\<close>, and once at least \<open>C\<close> panes have arrived (\<open>older @ recent\<close> with
  \<open>recent\<close> the last \<open>C\<close> of them) the window holds exactly \<open>recent\<close>, in arrival order.
\<close>

theorem shift_window_fifo:
  "1 \<le> C \<Longrightarrow>
     int (length (panes (foldl shift_window (Window_init C) bs))) \<le> C \<and>
     (int (length recent) = C \<longrightarrow>
        panes (foldl shift_window (Window_init C) (older @ recent)) = recent)"
proof (intro conjI impI)
  assume C: "1 \<le> C"
  have "length (panes (foldl shift_window (Window_init C) bs)) \<le> nat (max 1 C)"
    unfolding panes_roll by simp
  then show "int (length (panes (foldl shift_window (Window_init C) bs))) \<le> C"
    using C by simp
next
  assume C: "1 \<le> C" and len: "int (length recent) = C"
  have m: "nat (max 1 C) = length recent" using C len by auto
  have "panes (foldl shift_window (Window_init C) (older @ recent)) =
          drop (length (older @ recent) - nat (max 1 C)) (older @ recent)"
    by (rule panes_roll)
  also have "\<dots> = recent" unfolding m by simp
  finally show "panes (foldl shift_window (Window_init C) (older @ recent)) = recent" .
qed

theorem shift_window_fifo_witness:
  "(1::int) \<le> 2 \<and>
   int (length (panes (foldl shift_window (Window_init 2)
      [Pane_init (1::nat), Pane_init 2, Pane_init 3 :: (string, nat) Pane]))) \<le> 2 \<and>
   int (length [Pane_init (2::nat), Pane_init 3 :: (string, nat) Pane]) = 2 \<and>
   panes (foldl shift_window (Window_init 2)
      ([Pane_init (1::nat)] @ [Pane_init 2, Pane_init 3 :: (string, nat) Pane])) =
     [Pane_init 2, Pane_init 3]"
  using shift_window_fifo [of 2
      "[Pane_init (1::nat), Pane_init 2, Pane_init 3 :: (string, nat) Pane]"
      "[Pane_init (2::nat), Pane_init 3 :: (string, nat) Pane]" "[Pane_init (1::nat)]"]
  by simp

text \<open>
  C4, as the specification states it, fails: one \<open>shift_window\<close> on a window of
  capacity 0 raises nothing, but the window is not empty afterwards.
\<close>

theorem capacity_zero_window_not_empty:
  "window_len (shift_window (Window_init 0) (Pane_init (7::nat) :: (string, nat) Pane)) \<noteq> 0 \<and>
   panes (shift_window (Window_init 0) (Pane_init (7::nat) :: (string, nat) Pane)) \<noteq> []"
  by (simp add: panes_shift window_len_def Window_init_def)

text \<open>
  C4, amended: on a window constructed with capacity 0 every \<open>shift_window\<close> call
  completes (the function is total, the \<open>IndexError\<close> of the empty \<open>pop\<close> being caught),
  and after any positive number of calls the window holds exactly the pane shifted in
  last, so its length is 1, not 0.
\<close>

theorem capacity_zero_window_holds_last:
  "bs \<noteq> [] \<Longrightarrow>
     panes (foldl shift_window (Window_init 0) bs) = [last bs] \<and>
     window_len (foldl shift_window (Window_init 0) bs) = 1"
proof -
  assume ne: "bs \<noteq> []"
  have "drop (length (butlast bs)) (butlast bs @ [last bs]) = [last bs]" by simp
  then have "drop (length bs - 1) bs = [last bs]" using ne by simp
  then show ?thesis by (simp add: panes_roll window_len_def)
qed

theorem capacity_zero_window_holds_last_witness:
  "[Pane_init (1::nat), Pane_init 2 :: (string, nat) Pane] \<noteq> [] \<and>
   panes (foldl shift_window (Window_init 0)
      [Pane_init (1::nat), Pane_init 2 :: (string, nat) Pane]) = [Pane_init 2] \<and>
   window_len (foldl shift_window (Window_init 0)
      [Pane_init (1::nat), Pane_init 2 :: (string, nat) Pane]) = 1"
  using capacity_zero_window_holds_last
      [of "[Pane_init (1::nat), Pane_init 2 :: (string, nat) Pane]"]
  by simp

subsection \<open>What \<open>get_request_stats\<close> computes\<close>

lemma foldl_w_numer:
  "foldl (\<lambda>a p. a + n_requests p) s ps = s + sum_list (map n_requests ps)" for s :: int
  by (induction ps arbitrary: s) auto

lemma foldl_w_sd_temp:
  "foldl (\<lambda>a p. a + (m - real_of_int (n_requests p))\<^sup>2) s ps =
     s + (\<Sum>x\<leftarrow>map n_requests ps. (m - real_of_int x)\<^sup>2)"
  by (induction ps arbitrary: s) auto

text \<open>
  The same shape as in \<open>ip_stats\<close>: the mean of the panes' \<open>n_requests\<close>, and the
  population standard deviation scaled by the square root of the number of panes.
\<close>

lemma get_request_stats_formula:
  assumes "panes w \<noteq> []"
  shows "map_sum id fst (get_request_stats w) =
    Inr (mean_of (map n_requests (panes w)),
         sqrt (real (length (panes w))) * population_stdev (map n_requests (panes w)))"
proof -
  have pos: "0 < real (length (panes w))" using assms by simp
  show ?thesis
    using assms
    by (simp add: get_request_stats_def window_len_def Let_def foldl_w_numer foldl_w_sd_temp
        population_stdev_def sqrt_scaled [OF pos] o_def)
      (simp add: mean_of_def)
qed

lemma uneven_window_value:
  "uneven_window =
     \<lparr>window_length = 4,
      panes = [foldl update (Pane_init 1) [''a''],
               foldl update (Pane_init 2) [''b''],
               foldl update (Pane_init 3) [''a'', ''a'', ''a''],
               foldl update (Pane_init 4) [''a'', ''b'', ''a'']],
      ave_requests = 0, sd_requests = 0\<rparr>"
  unfolding uneven_window_def
  by (simp add: shift_window_def window_len_def Window_init_def)

lemma uneven_window_requests: "map n_requests (panes uneven_window) = [1, 1, 3, 3]"
  unfolding uneven_window_value
  by (simp add: update_n_requests Pane_init_def)

lemma get_request_stats_1133:
  assumes "map n_requests (panes w) = [1, 1, 3, 3]"
  shows "get_request_stats w = Inr ((2, 2), w\<lparr>ave_requests := 2, sd_requests := 2\<rparr>)"
proof -
  from assms obtain a b c d where ps: "panes w = [a, b, c, d]"
    and v: "n_requests a = 1" "n_requests b = 1" "n_requests c = 3" "n_requests d = 3"
    by (auto simp add: map_eq_Cons_conv)
  show ?thesis
    by (simp add: get_request_stats_def window_len_def Let_def ps v power2_eq_square)
qed

text \<open>
  C3 at a concrete window: the held panes have 1, 1, 3 and 3 requests, so the mean is 2
  and the population standard deviation is 1, and \<open>get_request_stats\<close> returns (and
  caches) the deviation 2. As for the pane above, the floating-point computation is
  exact at this input.
\<close>

theorem get_request_stats_omits_division:
  "get_request_stats uneven_window =
     Inr ((2, 2), uneven_window\<lparr>ave_requests := 2, sd_requests := 2\<rparr>) \<and>
   mean_of (map n_requests (panes uneven_window)) = 2 \<and>
   population_stdev (map n_requests (panes uneven_window)) = 1"
  by (simp add: get_request_stats_1133 [OF uneven_window_requests] uneven_window_requests
      mean_of_def population_stdev_def power2_eq_square)

section \<open>Properties of AttackDetector\<close>

subsection \<open>The helpers of the scan\<close>

lemma any_ip_above_Some: "\<exists>b. any_ip_above (Some st) l = Inr b"
  by (induction l) (auto split: prod.splits)

lemma any_ip_above_error: "any_ip_above st l = Inl e \<Longrightarrow> st = None \<and> e = TypeError"
proof (cases st)
  case None
  assume "any_ip_above st l = Inl e"
  then show ?thesis using None by (cases l) auto
next
  case (Some x)
  assume "any_ip_above st l = Inl e"
  moreover obtain b where "any_ip_above (Some x) l = Inr b" using any_ip_above_Some by blast
  ultimately show ?thesis using Some by simp
qed

lemma write_loop_Some: "fst (write_loop (Some st) l lg) = None"
  by (induction l arbitrary: lg) (auto split: prod.splits)

lemma ip_stats_error: "ip_stats p = Inl e \<Longrightarrow> e = ZeroDivisionError"
  by (auto simp add: ip_stats_def Let_def split: if_splits)

lemma get_request_stats_Inr:
  "get_request_stats w = Inr ((ave, sd), w') \<Longrightarrow>
     w' = w\<lparr>ave_requests := ave, sd_requests := sd\<rparr> \<and> panes w \<noteq> []"
  by (auto simp add: get_request_stats_def window_len_def Let_def split: if_splits)

lemma get_request_stats_Inl:
  "get_request_stats w = Inl e \<Longrightarrow> e = ZeroDivisionError \<and> panes w = []"
  by (auto simp add: get_request_stats_def window_len_def Let_def split: if_splits)

text \<open>Behind the guard of \<open>process_data\<close> the window statistics never divide by zero.\<close>

lemma get_request_stats_guarded: "1 < window_len w \<Longrightarrow> \<exists>r. get_request_stats w = Inr r"
  by (simp add: get_request_stats_def Let_def)

lemma check_ip_stats_frame:
  "check_ip_stats d = (r, d') \<Longrightarrow>
     current_pane d' = current_pane d \<and> current_timestamp d' = current_timestamp d \<and>
     stdout d' = stdout d \<and> window d' = window d \<and> status d' = status d \<and>
     normal_stats d' = normal_stats d \<and> log_file d' = log_file d \<and>
     (status d \<longrightarrow> normal_ip_stats d' = normal_ip_stats d) \<and>
     (\<not> status d \<longrightarrow> r = Inr True \<longrightarrow> normal_ip_stats d' \<noteq> None)"
  by (auto simp add: check_ip_stats_def Let_def split: if_splits list.splits sum.splits option.splits)

lemma check_ip_stats_normal_sets:
  "\<not> status d \<Longrightarrow> check_ip_stats d = (Inr b, d') \<Longrightarrow> normal_ip_stats d' \<noteq> None"
  by (auto simp add: check_ip_stats_def Let_def split: if_splits list.splits sum.splits option.splits)

lemma check_ip_stats_error:
  "check_ip_stats d = (Inl e, d') \<Longrightarrow> current_pane d \<noteq> None \<Longrightarrow>
     (status d \<longrightarrow> normal_ip_stats d \<noteq> None) \<Longrightarrow> e \<noteq> AttributeError \<and> e \<noteq> TypeError"
  by (auto simp add: check_ip_stats_def Let_def split: if_splits list.splits sum.splits option.splits
      dest: ip_stats_error any_ip_above_error)

lemma write_ips_to_logs_frame:
  "write_ips_to_logs d = (e, d') \<Longrightarrow>
     current_pane d' = current_pane d \<and> current_timestamp d' = current_timestamp d \<and>
     stdout d' = stdout d \<and> window d' = window d \<and> status d' = status d \<and>
     normal_stats d' = normal_stats d \<and> normal_ip_stats d' = normal_ip_stats d"
  by (auto simp add: write_ips_to_logs_def split: option.splits prod.splits)

lemma write_ips_to_logs_ok:
  "current_pane d \<noteq> None \<Longrightarrow> normal_ip_stats d \<noteq> None \<Longrightarrow> fst (write_ips_to_logs d) = None"
  using write_loop_Some [of _ _ "log_file d"]
  by (auto simp add: write_ips_to_logs_def split: option.splits prod.splits) (metis fst_conv)


lemma scan_for_attack_frame:
  "scan_for_attack d = (e, d') \<Longrightarrow>
     current_pane d' = current_pane d \<and> current_timestamp d' = current_timestamp d \<and>
     stdout d' = stdout d \<and> panes (window d') = panes (window d) \<and>
     window_length (window d') = window_length (window d)"
  by (auto simp add: scan_for_attack_def Let_def
      split: if_splits list.splits sum.splits option.splits prod.splits bool.splits
      dest!: check_ip_stats_frame write_ips_to_logs_frame get_request_stats_Inr)

lemma scan_for_attack_normal_stats:
  "scan_for_attack d = (e, d') \<Longrightarrow>
     (status d \<longrightarrow> normal_stats d' = normal_stats d) \<and>
     (normal_stats d' \<noteq> normal_stats d \<longrightarrow> \<not> status d \<and> status d')"
  by (auto simp add: scan_for_attack_def Let_def
      split: if_splits list.splits sum.splits option.splits prod.splits bool.splits
      dest!: check_ip_stats_frame write_ips_to_logs_frame get_request_stats_Inr)


lemma scan_for_attack_baselines:
  "scan_for_attack d = (e, d') \<Longrightarrow>
     (status d \<longrightarrow> normal_stats d \<noteq> None \<and> normal_ip_stats d \<noteq> None) \<Longrightarrow>
     (status d' \<longrightarrow> normal_stats d' \<noteq> None \<and> normal_ip_stats d' \<noteq> None)"
  by (auto simp add: scan_for_attack_def Let_def
      split: if_splits list.splits sum.splits option.splits prod.splits bool.splits
      dest!: check_ip_stats_frame write_ips_to_logs_frame get_request_stats_Inr) metis

lemma scan_for_attack_error:
  assumes "scan_for_attack d = (Some e, d')"
    and "current_pane d \<noteq> None"
    and "status d \<longrightarrow> normal_stats d \<noteq> None \<and> normal_ip_stats d \<noteq> None"
  shows "e \<noteq> AttributeError \<and> e \<noteq> TypeError"
proof (cases "status d")
  case True
  with assms obtain cp m s where cp: "current_pane d = Some cp" and ns: "normal_stats d = Some (m, s)"
    and nip: "normal_ip_stats d \<noteq> None" by auto
  show ?thesis
  proof (cases "real_of_int (n_requests cp) > m + 2 * s")
    case False
    then show ?thesis using assms(1) True cp ns by (simp add: scan_for_attack_def)
  next
    case above: True
    obtain r d1 where c: "check_ip_stats d = (r, d1)" by (cases "check_ip_stats d")
    have d1: "current_pane d1 = current_pane d" "normal_ip_stats d1 = normal_ip_stats d"
      using check_ip_stats_frame [OF c] True by simp_all
    show ?thesis
    proof (cases r)
      case (Inl x)
      then have "e = x" using assms(1) True cp ns above c by (simp add: scan_for_attack_def)
      then show ?thesis using check_ip_stats_error [of d x d1] c Inl assms(2) nip by simp
    next
      case (Inr b)
      show ?thesis
      proof (cases b)
        case True
        then have "write_ips_to_logs d1 = (Some e, d')"
          using assms(1) \<open>status d\<close> cp ns above c Inr by (simp add: scan_for_attack_def)
        moreover have "fst (write_ips_to_logs d1) = None"
          using write_ips_to_logs_ok [of d1] d1 assms(2) nip by simp
        ultimately show ?thesis by simp
      next
        case False
        then show ?thesis using assms(1) \<open>status d\<close> cp ns above c Inr by (simp add: scan_for_attack_def)
      qed
    qed
  qed
next
  case False
  show ?thesis
  proof (cases "get_request_stats (window d)")
    case (Inl x)
    then have "e = x" using assms(1) False by (simp add: scan_for_attack_def)
    then show ?thesis using get_request_stats_Inl [OF Inl] by simp
  next
    case (Inr x)
    then obtain ave sd w' where x: "get_request_stats (window d) = Inr ((ave, sd), w')"
      by (cases x) auto
    let ?d1 = "d\<lparr>window := w'\<rparr>"
    obtain cp where cp: "current_pane d = Some cp" using assms(2) by auto
    show ?thesis
    proof (cases "real_of_int (n_requests cp) > ave + 2 * sd")
      case nope: False
      then show ?thesis using assms(1) False x cp by (simp add: scan_for_attack_def Let_def)
    next
      case above: True
      obtain r d2 where c: "check_ip_stats ?d1 = (r, d2)" by (cases "check_ip_stats ?d1")
      have d2: "current_pane d2 = current_pane d" using check_ip_stats_frame [OF c] by simp
      show ?thesis
      proof (cases r)
        case (Inl y)
        then have "e = y" using assms(1) False x cp above c by (simp add: scan_for_attack_def Let_def)
        then show ?thesis using check_ip_stats_error [of ?d1 y d2] c Inl cp False by simp
      next
        case (Inr b)
        show ?thesis
        proof (cases b)
          case True
          let ?d3 = "d2\<lparr>status := True, normal_stats := Some (ave, sd)\<rparr>"
          have "write_ips_to_logs ?d3 = (Some e, d')"
            using assms(1) False x cp above c Inr True by (simp add: scan_for_attack_def Let_def)
          moreover have "normal_ip_stats d2 \<noteq> None"
            using check_ip_stats_normal_sets [of ?d1 b d2] c Inr False by simp
          then have "fst (write_ips_to_logs ?d3) = None"
            using write_ips_to_logs_ok [of ?d3] d2 cp by simp
          ultimately show ?thesis by simp
        next
          case nob: False
          then show ?thesis using assms(1) False x cp above c Inr by (simp add: scan_for_attack_def Let_def)
        qed
      qed
    qed
  qed
qed


lemma process_data_fresh:
  "current_pane d = None \<Longrightarrow>
     process_data d ip ts =
       (None, d\<lparr>current_timestamp := Some ts, current_pane := Some (update (Pane_init ts) ip)\<rparr>)"
  by (simp add: process_data_def)

lemma process_data_same:
  "current_pane d = Some cp \<Longrightarrow> current_timestamp d = Some ts \<Longrightarrow>
     process_data d ip ts = (None, d\<lparr>current_pane := Some (update cp ip)\<rparr>)"
  by (simp add: process_data_def)

lemma process_data_seen:
  "current_pane d = Some cp \<Longrightarrow> current_timestamp d \<noteq> Some ts \<Longrightarrow>
     window_contains (window d) ts \<Longrightarrow> process_data d ip ts = (None, d)"
  by (auto simp add: process_data_def)

lemma process_data_boundary:
  assumes "current_pane d = Some cp" and "current_timestamp d \<noteq> Some ts"
    and "\<not> window_contains (window d) ts"
  shows "process_data d ip ts =
     (case (if window_len (window d) > 1 then scan_for_attack d else (None, d)) of
        (Some e, d2) \<Rightarrow> (Some e, d2)
      | (None, d2) \<Rightarrow> (None, d2\<lparr>stdout := stdout d2 @ [(current_timestamp d2, n_requests cp, status d2)],
                         window := shift_window (window d2) cp,
                         current_timestamp := Some ts, current_pane := Some (Pane_init ts)\<rparr>))"
proof (cases "window_len (window d) > 1")
  case False
  then show ?thesis using assms by (auto simp add: process_data_def)
next
  case True
  obtain e d2 where sc: "scan_for_attack d = (e, d2)" by (cases "scan_for_attack d")
  have "current_pane d2 = Some cp" using scan_for_attack_frame [OF sc] assms(1) by simp
  then show ?thesis using assms True sc
    by (auto simp add: process_data_def split: option.splits)
qed

subsection \<open>One call of \<open>process_data\<close>\<close>

lemma process_data_normal_stats:
  "(status d \<longrightarrow> normal_stats (snd (process_data d ip ts)) = normal_stats d) \<and>
   (normal_stats (snd (process_data d ip ts)) \<noteq> normal_stats d \<longrightarrow>
      \<not> status d \<and> status (snd (process_data d ip ts)))"
proof (cases "current_pane d")
  case None
  then show ?thesis by (simp add: process_data_fresh)
next
  case (Some cp)
  show ?thesis
  proof (cases "current_timestamp d = Some ts")
    case True
    then show ?thesis using Some by (simp add: process_data_same)
  next
    case differs: False
    show ?thesis
    proof (cases "window_contains (window d) ts")
      case True
      then show ?thesis using Some differs by (simp add: process_data_seen)
    next
      case False
      note b = process_data_boundary [OF Some differs False, of ip]
      show ?thesis
      proof (cases "window_len (window d) > 1")
        case little: False
        then show ?thesis unfolding b by simp
      next
        case True
        obtain e d2 where sc: "scan_for_attack d = (e, d2)" by (cases "scan_for_attack d")
        show ?thesis unfolding b using True sc scan_for_attack_normal_stats [OF sc]
          by (cases e) simp_all
      qed
    qed
  qed
qed

lemma process_data_baselines:
  assumes "status d \<longrightarrow> normal_stats d \<noteq> None \<and> normal_ip_stats d \<noteq> None"
  shows "(status (snd (process_data d ip ts)) \<longrightarrow>
            normal_stats (snd (process_data d ip ts)) \<noteq> None \<and>
            normal_ip_stats (snd (process_data d ip ts)) \<noteq> None) \<and>
         fst (process_data d ip ts) \<noteq> Some AttributeError \<and>
         fst (process_data d ip ts) \<noteq> Some TypeError"
proof (cases "current_pane d")
  case None
  then show ?thesis using assms by (simp add: process_data_fresh)
next
  case (Some cp)
  show ?thesis
  proof (cases "current_timestamp d = Some ts")
    case True
    then show ?thesis using Some assms by (simp add: process_data_same)
  next
    case differs: False
    show ?thesis
    proof (cases "window_contains (window d) ts")
      case True
      then show ?thesis using Some differs assms by (simp add: process_data_seen)
    next
      case False
      note b = process_data_boundary [OF Some differs False, of ip]
      show ?thesis
      proof (cases "window_len (window d) > 1")
        case little: False
        then show ?thesis unfolding b using assms by simp
      next
        case True
        obtain e d2 where sc: "scan_for_attack d = (e, d2)" by (cases "scan_for_attack d")
        note inv = scan_for_attack_baselines [OF sc assms]
        show ?thesis
        proof (cases e)
          case None
          then show ?thesis unfolding b using True sc inv by simp
        next
          case (Some x)
          have "x \<noteq> AttributeError \<and> x \<noteq> TypeError"
            using scan_for_attack_error [of d x d2] sc Some \<open>current_pane d = Some cp\<close> assms by simp
          then show ?thesis unfolding b using True sc inv Some by simp
        qed
      qed
    qed
  qed
qed

subsection \<open>Feeding records\<close>

lemma foldl_update_n_requests:
  "n_requests (foldl update p ips) = n_requests p + int (length ips)"
  by (induction ips arbitrary: p) (simp_all add: update_n_requests)

lemma process_all_append:
  "process_all d (xs @ ys) =
     (case process_all d xs of (Some e, d') \<Rightarrow> (Some e, d') | (None, d') \<Rightarrow> process_all d' ys)"
  by (induction d xs rule: process_all.induct) (auto split: prod.splits option.splits)

lemma process_all_same:
  "current_pane d = Some cp \<Longrightarrow> current_timestamp d = Some t \<Longrightarrow>
     process_all d (map (\<lambda>ip. (ip, t)) ips) = (None, d\<lparr>current_pane := Some (foldl update cp ips)\<rparr>)"
proof (induction ips arbitrary: d cp)
  case Nil
  then show ?case by simp
next
  case (Cons ip ips)
  let ?d = "d\<lparr>current_pane := Some (update cp ip)\<rparr>"
  have "process_all ?d (map (\<lambda>ip. (ip, t)) ips) =
          (None, ?d\<lparr>current_pane := Some (foldl update (update cp ip) ips)\<rparr>)"
    using Cons.prems by (intro Cons.IH) simp_all
  then show ?case using Cons.prems by (simp add: process_data_same)
qed

lemma process_all_first:
  assumes "ips \<noteq> []" and "current_pane d = None"
  shows "process_all d (map (\<lambda>ip. (ip, t)) ips) =
     (None, d\<lparr>current_timestamp := Some t, current_pane := Some (foldl update (Pane_init t) ips)\<rparr>)"
proof -
  obtain ip rest where ips: "ips = ip # rest" using assms(1) by (cases ips) auto
  let ?d = "d\<lparr>current_timestamp := Some t, current_pane := Some (update (Pane_init t) ip)\<rparr>"
  have "process_all ?d (map (\<lambda>ip. (ip, t)) rest) =
          (None, ?d\<lparr>current_pane := Some (foldl update (update (Pane_init t) ip) rest)\<rparr>)"
    by (intro process_all_same) simp_all
  then show ?thesis using assms(2) by (simp add: ips process_data_fresh)
qed

lemma foldl_update_timestamp: "timestamp (foldl update p ips) = timestamp p"
  by (induction ips arbitrary: p) (simp_all add: update_def Let_def)

lemma process_all_first_unit:
  assumes "ips \<noteq> []" and "t' \<noteq> t"
  shows "process_all (AttackDetector_init C path) (map (\<lambda>ip. (ip, t)) ips @ [(ip', t')]) =
       (None, (AttackDetector_init C path)
          \<lparr>stdout := [(Some t, int (length ips), False)],
           window := shift_window (Window_init C) (foldl update (Pane_init t) ips),
           current_timestamp := Some t', current_pane := Some (Pane_init t')\<rparr>)"
proof -
  let ?d0 = "AttackDetector_init C path :: ('a, 'b) AttackDetector"
  let ?cp = "foldl update (Pane_init t) ips"
  let ?d1 = "?d0\<lparr>current_timestamp := Some t, current_pane := Some ?cp\<rparr>"
  have first: "process_all ?d0 (map (\<lambda>ip. (ip, t)) ips) = (None, ?d1)"
    using assms(1) by (intro process_all_first) (simp_all add: AttackDetector_init_def)
  have n: "n_requests ?cp = int (length ips)"
    by (simp add: foldl_update_n_requests Pane_init_def)
  have last: "process_data ?d1 ip' t' =
      (None, ?d0\<lparr>stdout := [(Some t, int (length ips), False)],
           window := shift_window (Window_init C) ?cp,
           current_timestamp := Some t', current_pane := Some (Pane_init t')\<rparr>)"
    using assms(2) n
    by (subst process_data_boundary [where cp = ?cp])
      (simp_all add: AttackDetector_init_def Window_init_def window_contains_def window_len_def)
  show ?thesis by (simp add: process_all_append first last)
qed

text \<open>
  Two boundaries in a row from a fresh detector: the second time unit is fed
  \<open>1 + length ips2\<close> records, and the line printed for it counts \<open>length ips2\<close>. The
  record that opened the time unit is in no pane.
\<close>

lemma later_time_unit_loses_first_record:
  assumes "ips1 \<noteq> []" and "t2 \<noteq> t1" and "t3 \<noteq> t2" and "t3 \<noteq> t1"
  shows "process_all (AttackDetector_init C path)
           (map (\<lambda>ip. (ip, t1)) ips1 @ (ip2, t2) # map (\<lambda>ip. (ip, t2)) ips2 @ [(ip3, t3)]) =
     (None, (AttackDetector_init C path)
        \<lparr>stdout := [(Some t1, int (length ips1), False), (Some t2, int (length ips2), False)],
         window := shift_window (shift_window (Window_init C) (foldl update (Pane_init t1) ips1))
                     (foldl update (Pane_init t2) ips2),
         current_timestamp := Some t3, current_pane := Some (Pane_init t3)\<rparr>)"
proof -
  let ?d0 = "AttackDetector_init C path :: ('a, 'b) AttackDetector"
  let ?cp1 = "foldl update (Pane_init t1) ips1"
  let ?cp2 = "foldl update (Pane_init t2) ips2"
  let ?w1 = "shift_window (Window_init C) ?cp1"
  let ?d1 = "?d0\<lparr>stdout := [(Some t1, int (length ips1), False)], window := ?w1,
                  current_timestamp := Some t2, current_pane := Some (Pane_init t2)\<rparr>"
  let ?d2 = "?d1\<lparr>current_pane := Some ?cp2\<rparr>"
  have one: "process_all ?d0 (map (\<lambda>ip. (ip, t1)) ips1 @ [(ip2, t2)]) = (None, ?d1)"
    by (rule process_all_first_unit [OF assms(1,2)])
  have two: "process_all ?d1 (map (\<lambda>ip. (ip, t2)) ips2) = (None, ?d2)"
    by (intro process_all_same) simp_all
  have w1: "panes ?w1 = [?cp1]" by (simp add: panes_shift Window_init_def)
  have n2: "n_requests ?cp2 = int (length ips2)"
    by (simp add: foldl_update_n_requests Pane_init_def)
  have three: "process_data ?d2 ip3 t3 =
      (None, ?d0\<lparr>stdout := [(Some t1, int (length ips1), False), (Some t2, int (length ips2), False)],
         window := shift_window ?w1 ?cp2,
         current_timestamp := Some t3, current_pane := Some (Pane_init t3)\<rparr>)"
    using assms(3,4) n2 w1
    by (subst process_data_boundary [where cp = ?cp2])
      (simp_all add: window_contains_def window_len_def foldl_update_timestamp Pane_init_def
        AttackDetector_init_def)
  have "process_all ?d0
          ((map (\<lambda>ip. (ip, t1)) ips1 @ [(ip2, t2)]) @ (map (\<lambda>ip. (ip, t2)) ips2 @ [(ip3, t3)])) =
        process_all ?d1 (map (\<lambda>ip. (ip, t2)) ips2 @ [(ip3, t3)])"
    by (simp only: process_all_append [of ?d0 "map (\<lambda>ip. (ip, t1)) ips1 @ [(ip2, t2)]"] one
        prod.case option.case)
  also have "\<dots> = process_all ?d2 [(ip3, t3)]"
    by (simp only: process_all_append [of ?d1 "map (\<lambda>ip. (ip, t2)) ips2"] two
        prod.case option.case)
  also have "\<dots> = (None, ?d0\<lparr>stdout := [(Some t1, int (length ips1), False),
                                       (Some t2, int (length ips2), False)],
         window := shift_window ?w1 ?cp2,
         current_timestamp := Some t3, current_pane := Some (Pane_init t3)\<rparr>)"
    by (simp only: process_all.simps three prod.case option.case)
  finally show ?thesis by simp
qed

lemma run_states_nonempty: "run_states d recs \<noteq> []"
  by (cases recs) auto

lemma run_states_frozen:
  "list_all status (butlast (run_states d recs)) \<Longrightarrow>
     normal_stats (last (run_states d recs)) = normal_stats d"
proof (induction recs arbitrary: d)
  case Nil
  then show ?case by simp
next
  case (Cons r recs)
  obtain ip ts where r: "r = (ip, ts)" by (cases r)
  obtain e d' where pd: "process_data d ip ts = (e, d')" by (cases "process_data d ip ts")
  have st: "status d" using Cons.prems pd r run_states_nonempty [of d' recs]
    by (cases e) simp_all
  have one: "normal_stats d' = normal_stats d"
    using process_data_normal_stats [of d ip ts] st pd by simp
  show ?case
  proof (cases e)
    case (Some x)
    then show ?thesis using pd r one by simp
  next
    case None
    have "list_all status (butlast (run_states d' recs))"
      using Cons.prems pd r None run_states_nonempty [of d' recs] by simp
    then have "normal_stats (last (run_states d' recs)) = normal_stats d'"
      by (rule Cons.IH)
    then show ?thesis using pd r None one run_states_nonempty [of d' recs] by simp
  qed
qed

lemma reachable_process_all: "reachable d \<Longrightarrow> reachable (snd (process_all d recs))"
proof (induction recs arbitrary: d)
  case Nil
  then show ?case by simp
next
  case (Cons r recs)
  obtain ip ts where r: "r = (ip, ts)" by (cases r)
  obtain e d' where pd: "process_data d ip ts = (e, d')" by (cases "process_data d ip ts")
  have d': "reachable d'" using reachable.step [OF Cons.prems pd] .
  show ?case
  proof (cases e)
    case None
    then show ?thesis using Cons.IH [OF d'] pd r by simp
  next
    case (Some x)
    then show ?thesis using pd r d' by simp
  qed
qed

lemma run_states_reachable:
  "reachable d \<Longrightarrow> d' \<in> set (run_states d recs) \<Longrightarrow> reachable d'"
proof (induction recs arbitrary: d)
  case Nil
  then show ?case by simp
next
  case (Cons r recs)
  obtain ip ts where r: "r = (ip, ts)" by (cases r)
  obtain e d1 where pd: "process_data d ip ts = (e, d1)" by (cases "process_data d ip ts")
  have d1: "reachable d1" using reachable.step [OF Cons.prems(1) pd] .
  show ?case
  proof (cases e)
    case None
    then show ?thesis using Cons.prems Cons.IH [OF d1] pd r by auto
  next
    case (Some x)
    then show ?thesis using Cons.prems pd r d1 by auto
  qed
qed

lemma reachable_baselines:
  "reachable d \<Longrightarrow> status d \<longrightarrow> normal_stats d \<noteq> None \<and> normal_ip_stats d \<noteq> None"
proof (induction rule: reachable.induct)
  case (init wl path)
  show ?case by (simp add: AttackDetector_init_def)
next
  case (step d ip ts e d')
  then show ?case using process_data_baselines [of d ip ts] by simp
qed

subsection \<open>The concrete detectors\<close>

lemmas eval_defs = process_data_def scan_for_attack_def check_ip_stats_def write_ips_to_logs_def
  get_request_stats_def ip_stats_def shift_window_def pop0_def window_len_def window_contains_def
  update_def Pane_init_def Window_init_def AttackDetector_init_def Let_def

lemma early_detector_value:
  "early_detector =
     \<lparr>window = \<lparr>window_length = 5,
                 panes = [\<lparr>timestamp = 1, ip_list = [(''a'', 1), (''b'', 1)], n_requests = 2\<rparr>],
                 ave_requests = 0, sd_requests = 0\<rparr>,
      current_pane = Some \<lparr>timestamp = 2, ip_list = [(''d'', 1)], n_requests = 1\<rparr>,
      current_timestamp = Some 2, log_path = ''alerts.log'', status = False,
      normal_request_stats = None, normal_ip_stats = None, normal_stats = None,
      stdout = [(Some 1, 2, False)], log_file = []\<rparr>"
  by (simp add: early_detector_def eval_defs)

lemma calm_detector_value:
  "calm_detector =
     \<lparr>window = \<lparr>window_length = 5,
                 panes = [\<lparr>timestamp = 1, ip_list = [(''a'', 1)], n_requests = 1\<rparr>,
                          \<lparr>timestamp = 2, ip_list = [(''a'', 1)], n_requests = 1\<rparr>],
                 ave_requests = 0, sd_requests = 0\<rparr>,
      current_pane = Some \<lparr>timestamp = 3, ip_list = [(''b'', 3)], n_requests = 3\<rparr>,
      current_timestamp = Some 3, log_path = ''alerts.log'', status = False,
      normal_request_stats = None, normal_ip_stats = None, normal_stats = None,
      stdout = [(Some 1, 1, False), (Some 2, 1, False)], log_file = []\<rparr>"
  by (simp add: calm_detector_def calm_records_def eval_defs)

lemma attack_detector_value:
  "attack_detector =
     \<lparr>window = \<lparr>window_length = 5,
                 panes = [\<lparr>timestamp = 1, ip_list = [(''a'', 1)], n_requests = 1\<rparr>,
                          \<lparr>timestamp = 2, ip_list = [(''a'', 1)], n_requests = 1\<rparr>,
                          \<lparr>timestamp = 3, ip_list = [(''b'', 3)], n_requests = 3\<rparr>],
                 ave_requests = 1, sd_requests = 0\<rparr>,
      current_pane = Some \<lparr>timestamp = 4, ip_list = [], n_requests = 0\<rparr>,
      current_timestamp = Some 4, log_path = ''alerts.log'', status = True,
      normal_request_stats = None, normal_ip_stats = Some (1, 0), normal_stats = Some (1, 0),
      stdout = [(Some 1, 1, False), (Some 2, 1, False), (Some 3, 3, True)], log_file = [''b'']\<rparr>"
  unfolding attack_detector_def calm_detector_value
  by (simp add: eval_defs)

lemma attack_run_value:
  "map (\<lambda>d. (status d, normal_stats d, log_file d)) (run_states attack_detector attack_records) =
     [(True, Some (1, 0), [''b'']), (True, Some (1, 0), [''b'']), (True, Some (1, 0), [''b'']),
      (True, Some (1, 0), [''b'', ''c'']), (True, Some (1, 0), [''b'', ''c'']),
      (False, Some (1, 0), [''b'', ''c''])]"
  unfolding attack_detector_value attack_records_def
  by (simp add: eval_defs)

lemma attack_run_status:
  "list_all status (butlast (run_states attack_detector attack_records)) \<and>
   \<not> status (last (run_states attack_detector attack_records))"
  unfolding attack_detector_value attack_records_def
  by (simp add: eval_defs)

lemma escalation_step:
  "normal_stats calm_detector = None \<and> \<not> status calm_detector \<and>
   snd (process_data calm_detector ''x'' 4) = attack_detector"
  by (simp add: attack_detector_def calm_detector_value)

lemma reachable_attack_detector: "reachable attack_detector"
proof -
  have "reachable (AttackDetector_init 5 ''alerts.log'' :: (string, nat) AttackDetector)"
    by (rule reachable.init)
  then have "reachable calm_detector"
    unfolding calm_detector_def by (rule reachable_process_all)
  then show ?thesis
    unfolding attack_detector_def
    by (rule reachable.step) (rule surjective_pairing)
qed

subsection \<open>The claims about the detector\<close>

text \<open>
  C7: a fresh detector of any capacity is fed \<open>N \<ge> 1\<close> records of one timestamp \<open>t\<close>
  (with any addresses \<open>ips\<close>) and then one record of another timestamp \<open>t'\<close>. The feed
  raises nothing and leaves the detector as constructed except for: one printed line,
  for \<open>t\<close> with \<open>N\<close> requests and status normal; the window, which is the constructed
  window after one \<open>shift_window\<close> of the retired pane and holds that pane alone; and
  the fresh current pane for \<open>t'\<close>. The retired pane has \<open>n_requests = N\<close>.
\<close>

theorem first_boundary_retires_all_records:
  "ips \<noteq> [] \<Longrightarrow> t' \<noteq> t \<Longrightarrow>
     process_all (AttackDetector_init C path) (map (\<lambda>ip. (ip, t)) ips @ [(ip', t')]) =
       (None, (AttackDetector_init C path)
          \<lparr>stdout := [(Some t, int (length ips), False)],
           window := shift_window (Window_init C) (foldl update (Pane_init t) ips),
           current_timestamp := Some t', current_pane := Some (Pane_init t')\<rparr>) \<and>
     panes (shift_window (Window_init C) (foldl update (Pane_init t) ips)) =
       [foldl update (Pane_init t) ips] \<and>
     n_requests (foldl update (Pane_init t) ips) = int (length ips)"
proof (intro conjI)
  assume ne: "ips \<noteq> []" and diff: "t' \<noteq> t"
  show "process_all (AttackDetector_init C path) (map (\<lambda>ip. (ip, t)) ips @ [(ip', t')]) =
       (None, (AttackDetector_init C path)
          \<lparr>stdout := [(Some t, int (length ips), False)],
           window := shift_window (Window_init C) (foldl update (Pane_init t) ips),
           current_timestamp := Some t', current_pane := Some (Pane_init t')\<rparr>)"
    by (rule process_all_first_unit [OF ne diff])
  show "panes (shift_window (Window_init C) (foldl update (Pane_init t) ips)) =
       [foldl update (Pane_init t) ips]"
    by (simp add: panes_shift Window_init_def)
  show "n_requests (foldl update (Pane_init t) ips) = int (length ips)"
    by (simp add: foldl_update_n_requests Pane_init_def)
qed

theorem first_boundary_retires_all_records_witness:
  "[''a'', ''b'', ''a''] \<noteq> ([] :: string list) \<and> (2::nat) \<noteq> 1 \<and>
   process_all (AttackDetector_init 5 ''alerts.log'')
       (map (\<lambda>ip. (ip, 1::nat)) [''a'', ''b'', ''a''] @ [(''c'', 2)]) =
     (None, (AttackDetector_init 5 ''alerts.log'')
        \<lparr>stdout := [(Some 1, int (length [''a'', ''b'', ''a'']), False)],
         window := shift_window (Window_init 5) (foldl update (Pane_init 1) [''a'', ''b'', ''a'']),
         current_timestamp := Some 2, current_pane := Some (Pane_init 2)\<rparr>) \<and>
   n_requests (foldl update (Pane_init (1::nat)) [''a'', ''b'', ''a'']) = 3"
proof -
  have h1: "[''a'', ''b'', ''a''] \<noteq> ([] :: string list)" by simp
  have h2: "(2::nat) \<noteq> 1" by simp
  note t = first_boundary_retires_all_records [OF h1 h2, of 5 "''alerts.log''" "''c''"]
  have "n_requests (foldl update (Pane_init (1::nat)) [''a'', ''b'', ''a'']) = 3"
    using t by simp
  then show ?thesis using h1 h2 t by blast
qed

text \<open>
  C8: the detector's window holds at most one pane. Then a call of \<open>process_data\<close>
  raises nothing and leaves \<open>status\<close> as it was, along with everything else that
  \<open>scan_for_attack\<close> and \<open>get_request_stats\<close> write (both baselines, the log file and the
  cached window statistics). When the call crosses a boundary (a current pane exists,
  the record's timestamp differs from the current one and is not in the window), its
  result is the print, the \<open>shift_window\<close> and the fresh pane applied to the detector as
  it was: the scan contributes nothing to it.
\<close>

theorem no_scan_with_short_window:
  assumes "length (panes (window d)) \<le> 1"
  shows "fst (process_data d ip ts) = None \<and>
    status (snd (process_data d ip ts)) = status d \<and>
    normal_stats (snd (process_data d ip ts)) = normal_stats d \<and>
    normal_ip_stats (snd (process_data d ip ts)) = normal_ip_stats d \<and>
    log_file (snd (process_data d ip ts)) = log_file d \<and>
    ave_requests (window (snd (process_data d ip ts))) = ave_requests (window d) \<and>
    sd_requests (window (snd (process_data d ip ts))) = sd_requests (window d) \<and>
    (current_pane d = Some cp \<and> current_timestamp d \<noteq> Some ts \<and>
     \<not> window_contains (window d) ts \<longrightarrow>
       process_data d ip ts =
         (None, d\<lparr>stdout := stdout d @ [(current_timestamp d, n_requests cp, status d)],
                  window := shift_window (window d) cp,
                  current_timestamp := Some ts, current_pane := Some (Pane_init ts)\<rparr>))"
proof (cases "current_pane d")
  case None
  then show ?thesis by (simp add: process_data_fresh)
next
  case (Some p)
  show ?thesis
  proof (cases "current_timestamp d = Some ts")
    case True
    then show ?thesis using Some by (simp add: process_data_same)
  next
    case differs: False
    show ?thesis
    proof (cases "window_contains (window d) ts")
      case True
      then show ?thesis using Some differs by (simp add: process_data_seen)
    next
      case False
      have short: "\<not> 1 < window_len (window d)" using assms by (simp add: window_len_def)
      show ?thesis
        unfolding process_data_boundary [OF Some differs False]
        using short Some by (simp add: shift_window_caches)
    qed
  qed
qed

theorem no_scan_with_short_window_witness:
  "length (panes (window early_detector)) \<le> 1 \<and>
   current_pane early_detector = Some \<lparr>timestamp = 2, ip_list = [(''d'', 1)], n_requests = 1\<rparr> \<and>
   current_timestamp early_detector \<noteq> Some 3 \<and>
   \<not> window_contains (window early_detector) 3 \<and>
   fst (process_data early_detector ''e'' 3) = None \<and>
   status (snd (process_data early_detector ''e'' 3)) = status early_detector \<and>
   process_data early_detector ''e'' 3 =
     (None, early_detector
        \<lparr>stdout := stdout early_detector @ [(current_timestamp early_detector, 1, status early_detector)],
         window := shift_window (window early_detector)
                     \<lparr>timestamp = 2, ip_list = [(''d'', 1)], n_requests = 1\<rparr>,
         current_timestamp := Some 3, current_pane := Some (Pane_init 3)\<rparr>)"
proof -
  have h1: "length (panes (window early_detector)) \<le> 1"
    by (simp add: early_detector_value)
  have h2: "current_pane early_detector =
      Some \<lparr>timestamp = 2, ip_list = [(''d'', 1)], n_requests = 1\<rparr>"
    by (simp add: early_detector_value)
  have h3: "current_timestamp early_detector \<noteq> Some 3"
    by (simp add: early_detector_value)
  have h4: "\<not> window_contains (window early_detector) 3"
    by (simp add: early_detector_value window_contains_def)
  note t = no_scan_with_short_window [OF h1, of "''e''" 3
      "\<lparr>timestamp = 2, ip_list = [(''d'', 1)], n_requests = 1\<rparr>"]
  have "n_requests \<lparr>timestamp = 2::nat, ip_list = [(''d'', 1::int)], n_requests = 1\<rparr> = 1"
    by simp
  then show ?thesis using h1 h2 h3 h4 t by simp
qed

text \<open>
  C9: a call that crosses a time-unit boundary (a current pane exists, the timestamp
  differs from the current one and is not in the window) does not use the record's
  address: any other address gives the same result. When the call returns, the new
  current pane is the empty pane of the new timestamp (no address, \<open>n_requests = 0\<close>)
  and the window is the old one with the retired pane shifted in; when the scan raises,
  the current pane and the window's panes are untouched. Either way the record that
  opened the time unit is counted nowhere.
\<close>

theorem boundary_record_is_dropped:
  assumes "current_pane d = Some cp"
    and "current_timestamp d \<noteq> Some ts"
    and "\<not> window_contains (window d) ts"
  shows "process_data d ip ts = process_data d ip' ts \<and>
    (fst (process_data d ip ts) = None \<longrightarrow>
       current_pane (snd (process_data d ip ts)) = Some (Pane_init ts) \<and>
       panes (window (snd (process_data d ip ts))) = panes (shift_window (window d) cp)) \<and>
    (fst (process_data d ip ts) \<noteq> None \<longrightarrow>
       current_pane (snd (process_data d ip ts)) = Some cp \<and>
       panes (window (snd (process_data d ip ts))) = panes (window d)) \<and>
    n_requests (Pane_init ts :: ('a, 'b) Pane) = 0 \<and> ip_list (Pane_init ts :: ('a, 'b) Pane) = []"
proof -
  note b = process_data_boundary [OF assms]
  have same: "process_data d ip ts = process_data d ip' ts" by (simp only: b)
  obtain e d2 where sc: "scan_for_attack d = (e, d2)" by (cases "scan_for_attack d")
  note fr = scan_for_attack_frame [OF sc]
  have shift: "panes (shift_window (window d2) cp) = panes (shift_window (window d) cp)"
    using fr by (simp add: panes_shift)
  have rest: "(fst (process_data d ip ts) = None \<longrightarrow>
       current_pane (snd (process_data d ip ts)) = Some (Pane_init ts) \<and>
       panes (window (snd (process_data d ip ts))) = panes (shift_window (window d) cp)) \<and>
    (fst (process_data d ip ts) \<noteq> None \<longrightarrow>
       current_pane (snd (process_data d ip ts)) = Some cp \<and>
       panes (window (snd (process_data d ip ts))) = panes (window d))"
  proof (cases "window_len (window d) > 1")
    case False
    then show ?thesis unfolding b [of ip] by simp
  next
    case True
    then show ?thesis using sc fr shift assms(1) unfolding b [of ip]
      by (cases e) simp_all
  qed
  have fresh: "n_requests (Pane_init ts :: ('a, 'b) Pane) = 0 \<and>
      ip_list (Pane_init ts :: ('a, 'b) Pane) = []"
    by (simp add: Pane_init_def)
  show ?thesis using same rest fresh by blast
qed

theorem boundary_record_is_dropped_witness:
  "current_pane calm_detector = Some \<lparr>timestamp = 3, ip_list = [(''b'', 3)], n_requests = 3\<rparr> \<and>
   current_timestamp calm_detector \<noteq> Some 4 \<and>
   \<not> window_contains (window calm_detector) 4 \<and>
   process_data calm_detector ''x'' 4 = process_data calm_detector ''y'' 4 \<and>
   fst (process_data calm_detector ''x'' 4) = None \<and>
   current_pane (snd (process_data calm_detector ''x'' 4)) = Some (Pane_init 4) \<and>
   panes (window (snd (process_data calm_detector ''x'' 4))) =
     panes (shift_window (window calm_detector)
        \<lparr>timestamp = 3, ip_list = [(''b'', 3)], n_requests = 3\<rparr>)"
proof -
  have h1: "current_pane calm_detector =
      Some \<lparr>timestamp = 3, ip_list = [(''b'', 3)], n_requests = 3\<rparr>"
    by (simp add: calm_detector_value)
  have h2: "current_timestamp calm_detector \<noteq> Some 4"
    by (simp add: calm_detector_value)
  have h3: "\<not> window_contains (window calm_detector) 4"
    by (simp add: calm_detector_value window_contains_def)
  note t = boundary_record_is_dropped [OF h1 h2 h3, of "''x''" "''y''"]
  have ok: "fst (process_data calm_detector ''x'' 4) = None"
    unfolding calm_detector_value by (simp add: eval_defs)
  show ?thesis using h1 h2 h3 t ok by blast
qed

text \<open>
  C5: along any feed, as long as every state before the last has status attack, the
  last state has the \<open>normal_stats\<close> of the first: no scan made under attack changes the
  frozen baseline, the scan that returns to normal included. And a call of
  \<open>process_data\<close> changes \<open>normal_stats\<close> only when it takes the status from normal to
  attack.
\<close>

theorem baseline_frozen_during_attack:
  "(list_all status (butlast (run_states d recs)) \<longrightarrow>
      normal_stats (last (run_states d recs)) = normal_stats d) \<and>
   (normal_stats (snd (process_data d ip ts)) \<noteq> normal_stats d \<longrightarrow>
      \<not> status d \<and> status (snd (process_data d ip ts)))"
  using run_states_frozen [of d recs] process_data_normal_stats [of d ip ts] by blast

theorem baseline_frozen_during_attack_witness:
  "list_all status (butlast (run_states attack_detector attack_records)) \<and>
   \<not> status (last (run_states attack_detector attack_records)) \<and>
   normal_stats (last (run_states attack_detector attack_records)) = normal_stats attack_detector \<and>
   normal_stats (snd (process_data calm_detector ''x'' 4)) \<noteq> normal_stats calm_detector \<and>
   \<not> status calm_detector \<and> status (snd (process_data calm_detector ''x'' 4))"
proof -
  note t = baseline_frozen_during_attack [where d = attack_detector and recs = attack_records]
  note u = baseline_frozen_during_attack [where d = calm_detector and ip = "''x''" and ts = 4]
  have changed: "normal_stats (snd (process_data calm_detector ''x'' 4)) \<noteq> normal_stats calm_detector"
    using escalation_step by (simp add: attack_detector_value)
  show ?thesis using t u attack_run_status changed by blast
qed

text \<open>
  C10: in every state reachable from a constructed detector by calls of
  \<open>process_data\<close>, status attack implies that \<open>normal_stats\<close> exists and that
  \<open>normal_ip_stats\<close> is not \<open>None\<close>; and no call of \<open>process_data\<close> in such a state
  raises the \<open>AttributeError\<close> or the \<open>TypeError\<close> that reading a missing baseline
  would raise.
\<close>

theorem attack_baselines_assigned:
  "reachable d \<Longrightarrow>
     (status d \<longrightarrow> normal_stats d \<noteq> None \<and> normal_ip_stats d \<noteq> None) \<and>
     fst (process_data d ip ts) \<noteq> Some AttributeError \<and>
     fst (process_data d ip ts) \<noteq> Some TypeError"
  using reachable_baselines [of d] process_data_baselines [of d ip ts] by blast

theorem attack_baselines_assigned_witness:
  "reachable (snd (process_all attack_detector [(''c'', 4), (''c'', 4)])) \<and>
   status (snd (process_all attack_detector [(''c'', 4), (''c'', 4)])) \<and>
   normal_stats (snd (process_all attack_detector [(''c'', 4), (''c'', 4)])) \<noteq> None \<and>
   normal_ip_stats (snd (process_all attack_detector [(''c'', 4), (''c'', 4)])) \<noteq> None \<and>
   fst (process_data (snd (process_all attack_detector [(''c'', 4), (''c'', 4)])) ''x'' 5) \<noteq>
     Some AttributeError \<and>
   fst (process_data (snd (process_all attack_detector [(''c'', 4), (''c'', 4)])) ''x'' 5) \<noteq>
     Some TypeError"
proof -
  have r: "reachable (snd (process_all attack_detector [(''c'', 4), (''c'', 4)]))"
    using reachable_attack_detector by (rule reachable_process_all)
  have st: "status (snd (process_all attack_detector [(''c'', 4), (''c'', 4)]))"
    unfolding attack_detector_value by (simp add: eval_defs)
  note t = attack_baselines_assigned [OF r, of "''x''" 5]
  show ?thesis using r st t by blast
qed

end
